theory Spec2Isabelle
  imports Main "HOL-Library.Multiset"
begin

section \<open>Python text primitives\<close>

text \<open>
  The bot reads three pieces of text: the \<^verbatim>\<open>ADMIN_IDS\<close> environment variable, the
  argument of the \<^verbatim>\<open>/paid\<close> and \<^verbatim>\<open>/fulfill\<close> commands, and the callback data of an
  inline button. Text is modelled as ASCII: a \<^typ>\<open>char\<close> stands for the code point of the
  same number, and the character classes below are the ones CPython uses for code points
  below 128.

  \<^item> \<^verbatim>\<open>str.strip()\<close> and \<^verbatim>\<open>str.isspace()\<close> treat the code points 9 to 13, 28 to 31 and
    32 as white space;
  \<^item> \<^verbatim>\<open>int(s)\<close> skips only the code points 9 to 13 and 32 around the number;
  \<^item> \<^verbatim>\<open>str.isdigit()\<close> holds for a non-empty text of the characters 0 to 9.
\<close>

datatype py_error = ValueError | IndexError

definition isspace_chr :: "char \<Rightarrow> bool" where
  "isspace_chr c \<longleftrightarrow>
     c \<in> set [CHR 0x09, CHR 0x0A, CHR 0x0B, CHR 0x0C, CHR 0x0D,
                CHR 0x1C, CHR 0x1D, CHR 0x1E, CHR 0x1F, CHR 0x20]"

definition c_isspace :: "char \<Rightarrow> bool" where
  "c_isspace c \<longleftrightarrow>
     c \<in> set [CHR 0x09, CHR 0x0A, CHR 0x0B, CHR 0x0C, CHR 0x0D, CHR 0x20]"

definition isdigit_chr :: "char \<Rightarrow> bool" where
  "isdigit_chr c \<longleftrightarrow> c \<in> set ''0123456789''"

definition strip :: "string \<Rightarrow> string" where
  "strip s = rev (dropWhile isspace_chr (rev (dropWhile isspace_chr s)))"

definition isdigit :: "string \<Rightarrow> bool" where
  "isdigit s \<longleftrightarrow> s \<noteq> [] \<and> list_all isdigit_chr s"

fun split_on :: "char \<Rightarrow> string \<Rightarrow> string list" where
  "split_on sep [] = [[]]"
| "split_on sep (c # cs) =
     (if c = sep then [] # split_on sep cs
      else (case split_on sep cs of
              [] \<Rightarrow> [[c]]
            | p # ps \<Rightarrow> (c # p) # ps))"

definition digit_val :: "char \<Rightarrow> int" where
  "digit_val c = int (of_char c) - 48"

definition digits_value :: "string \<Rightarrow> int" where
  "digits_value s = foldl (\<lambda>a c. 10 * a + digit_val c) 0 s"

text \<open>
  The body of a decimal literal accepted by \<^verbatim>\<open>int\<close>: digits, with single underscores
  allowed between two digits.
\<close>

fun int_body :: "string \<Rightarrow> bool" where
  "int_body [] = False"
| "int_body [c] = isdigit_chr c"
| "int_body (c # d # r) =
     (isdigit_chr c \<and> (if d = CHR ''_'' then int_body r else int_body (d # r)))"

definition py_int :: "string \<Rightarrow> py_error + int" where
  "py_int s =
     (let t = rev (dropWhile c_isspace (rev (dropWhile c_isspace s)));
          neg = (t \<noteq> [] \<and> hd t = CHR ''-'');
          body = (if t \<noteq> [] \<and> (hd t = CHR ''-'' \<or> hd t = CHR ''+'') then tl t else t)
      in if int_body body
         then Inr ((if neg then - 1 else 1) * digits_value (filter (\<lambda>c. c \<noteq> CHR ''_'') body))
         else Inl ValueError)"

section \<open>Configuration\<close>



record config =
  ADMIN_IDS :: "int list"
  PROVIDER_TOKEN :: "string option"

section \<open>The orders table\<close>

text \<open>
  One row of the table \<^verbatim>\<open>orders\<close>. The columns \<^verbatim>\<open>id\<close>, \<^verbatim>\<open>option\<close> and \<^verbatim>\<open>note\<close> carry the
  suffix \<open>_col\<close>. \<^verbatim>\<open>status\<close> is a text column; the handlers write the three texts
  \<^verbatim>\<open>pending\<close>, \<^verbatim>\<open>paid_waiting\<close> and \<^verbatim>\<open>done\<close>.
\<close>

record order =
  id_col :: int
  user_id :: int
  username :: string
  option_col :: string
  amount :: int
  status :: string
  created_at :: string
  note_col :: "string option"

text \<open>
  The database file: the rows in insertion order, and the counter that SQLite keeps for an
  \<^verbatim>\<open>AUTOINCREMENT\<close> key (the largest row id the table has ever held). Integers are
  unbounded here; SQLite's limit of 63 bits on a row id is outside the model, as are
  failures of the database file itself.
\<close>

record store =
  orders :: "order list"
  sqlite_sequence :: int

definition empty_store :: store where
  "empty_store = \<lparr>orders = [], sqlite_sequence = 0\<rparr>"

text \<open>\<^verbatim>\<open>CREATE TABLE IF NOT EXISTS\<close>: an existing table is left as it is.\<close>

fun init_db :: "store option \<Rightarrow> store" where
  "init_db None = empty_store"
| "init_db (Some db) = db"

definition last_rowid :: "store \<Rightarrow> int" where
  "last_rowid db = foldr max (map id_col (orders db)) (sqlite_sequence db)"

text \<open>
  \<^verbatim>\<open>add_order\<close>: the insert takes the next row id, one above every id of the table and
  above the counter; \<open>now\<close> is the value of \<^verbatim>\<open>CURRENT_TIMESTAMP\<close>.
\<close>

definition add_order ::
  "store \<Rightarrow> string \<Rightarrow> int \<Rightarrow> string \<Rightarrow> string \<Rightarrow> int \<Rightarrow> string \<Rightarrow> string option \<Rightarrow> int \<times> store" where
  "add_order db now uid uname opt amt st nt =
     (let lastrowid = last_rowid db + 1;
          row = \<lparr>id_col = lastrowid, user_id = uid, username = uname, option_col = opt,
                 amount = amt, status = st, created_at = now, note_col = nt\<rparr>
      in (lastrowid, \<lparr>orders = orders db @ [row], sqlite_sequence = lastrowid\<rparr>))"

text \<open>\<^verbatim>\<open>SELECT ... FROM orders WHERE id=?\<close> followed by \<^verbatim>\<open>fetchone()\<close>.\<close>

definition select_by_id :: "store \<Rightarrow> int \<Rightarrow> order option" where
  "select_by_id db order_id = find (\<lambda>r. id_col r = order_id) (orders db)"

text \<open>\<^verbatim>\<open>UPDATE orders SET status=? WHERE id=?\<close>.\<close>

definition update_status :: "store \<Rightarrow> string \<Rightarrow> int \<Rightarrow> store" where
  "update_status db st order_id =
     db\<lparr>orders := map (\<lambda>r. if id_col r = order_id then r\<lparr>status := st\<rparr> else r) (orders db)\<rparr>"

text \<open>
  \<^verbatim>\<open>SELECT id, option, amount, status, created_at FROM orders WHERE user_id=? ORDER BY id DESC\<close>
  followed by \<^verbatim>\<open>fetchall()\<close>.
\<close>

type_synonym order_line = "int \<times> string \<times> int \<times> string \<times> string"

definition order_line :: "order \<Rightarrow> order_line" where
  "order_line r = (id_col r, option_col r, amount r, status r, created_at r)"

definition select_by_user :: "store \<Rightarrow> int \<Rightarrow> order_line list" where
  "select_by_user db uid =
     map order_line (rev (sort_key id_col (filter (\<lambda>r. user_id r = uid) (orders db))))"

section \<open>The handlers\<close>

text \<open>
  A handler takes the store and the parts of the update it reads, and returns what it
  answers to the sender together with the store it leaves. The answers are named after the
  message sent:
  \<^item> \<open>Usage\<close>: \<^verbatim>\<open>Foydalanish: ...\<close>
  \<^item> \<open>NotFound\<close>: \<^verbatim>\<open>Buyurtma topilmadi.\<close>
  \<^item> \<open>InvalidState s\<close>: \<^verbatim>\<open>Buyurtma holati: s. ...\<close>
  \<^item> \<open>PaymentReported\<close>: \<^verbatim>\<open>To'lov qabul qilindi. Admin tasdiqlaydi\<close>
  \<^item> \<open>Unauthorized\<close>: \<^verbatim>\<open>Foydalanuvchi emas.\<close>
  \<^item> \<open>AlreadyDone\<close>: \<^verbatim>\<open>Buyurtma allaqachon bajarilgan.\<close>
  \<^item> \<open>Fulfilled n\<close>: \<^verbatim>\<open>Buyurtma #n bajarildi.\<close>
  \<^item> \<open>NoOrders\<close>: \<^verbatim>\<open>Sizda buyurtma yo'q.\<close>
  \<^item> \<open>OrderList ls\<close>: \<^verbatim>\<open>Sizning buyurtmalaringiz:\<close> and one line for each element
  \<^item> \<open>InvoiceSent\<close>: the invoice of \<^verbatim>\<open>send_invoice\<close>
  \<^item> \<open>OrderAccepted n\<close>: \<^verbatim>\<open>Buyurtma qabul qilindi (id: n).\<close>
  \<^item> \<open>PaymentAccepted\<close>: \<^verbatim>\<open>To'lov qabul qilindi. Buyurtmangiz bajariladi.\<close>

  An exception that leaves the handler is the \<open>Inl\<close> of the answer. The messages sent to
  other chats (the administrators, the owner of a fulfilled order) are sent after the
  database work inside \<^verbatim>\<open>try/except Exception: pass\<close>; they change neither the answer nor
  the store and are left out.
\<close>

datatype reply =
    Usage
  | NotFound
  | InvalidState string
  | PaymentReported
  | Unauthorized
  | AlreadyDone
  | Fulfilled int
  | NoOrders
  | OrderList "order_line list"
  | InvoiceSent
  | OrderAccepted int
  | PaymentAccepted

record tg_user =
  uid :: int
  uname :: "string option"

record message =
  from_user :: tg_user
  get_args :: string

type_synonym outcome = "(py_error + reply) \<times> store"

text \<open>\<^verbatim>\<open>user.username or ""\<close>\<close>

definition username_or_empty :: "tg_user \<Rightarrow> string" where
  "username_or_empty u = (case uname u of None \<Rightarrow> [] | Some n \<Rightarrow> n)"

definition process_option :: "config \<Rightarrow> store \<Rightarrow> string \<Rightarrow> tg_user \<Rightarrow> string \<Rightarrow> outcome" where
  "process_option cfg db now user data =
     (let parts = split_on CHR ''_'' data in
      if length parts < 3 then (Inl IndexError, db)
      else
        let uc = parts ! 1 in
        case py_int (parts ! 2) of
          Inl e \<Rightarrow> (Inl e, db)
        | Inr amt \<Rightarrow>
            if PROVIDER_TOKEN cfg \<noteq> None \<and> PROVIDER_TOKEN cfg \<noteq> Some []
            then (Inr InvoiceSent, db)
            else
              let (order_id, db') =
                    add_order db now (uid user) (username_or_empty user) (uc @ '' UC'') amt
                      ''pending'' None
              in (Inr (OrderAccepted order_id), db'))"

definition cmd_paid :: "store \<Rightarrow> message \<Rightarrow> outcome" where
  "cmd_paid db message =
     (let args = strip (get_args message) in
      if \<not> isdigit args then (Inr Usage, db)
      else
        case py_int args of
          Inl e \<Rightarrow> (Inl e, db)
        | Inr order_id \<Rightarrow>
            (case select_by_id db order_id of
               None \<Rightarrow> (Inr NotFound, db)
             | Some row \<Rightarrow>
                 if status row \<noteq> ''pending'' then (Inr (InvalidState (status row)), db)
                 else (Inr PaymentReported, update_status db ''paid_waiting'' order_id)))"

definition cmd_fulfill :: "config \<Rightarrow> store \<Rightarrow> message \<Rightarrow> outcome" where
  "cmd_fulfill cfg db message =
     (if uid (from_user message) \<notin> set (ADMIN_IDS cfg) then (Inr Unauthorized, db)
      else
        let args = strip (get_args message) in
        if \<not> isdigit args then (Inr Usage, db)
        else
          case py_int args of
            Inl e \<Rightarrow> (Inl e, db)
          | Inr order_id \<Rightarrow>
              (case select_by_id db order_id of
                 None \<Rightarrow> (Inr NotFound, db)
               | Some row \<Rightarrow>
                   if status row = ''done'' then (Inr AlreadyDone, db)
                   else (Inr (Fulfilled order_id), update_status db ''done'' order_id)))"

definition my_orders :: "store \<Rightarrow> message \<Rightarrow> outcome" where
  "my_orders db message =
     (let rows = select_by_user db (uid (from_user message)) in
      if rows = [] then (Inr NoOrders, db) else (Inr (OrderList rows), db))"

definition got_payment :: "store \<Rightarrow> string \<Rightarrow> tg_user \<Rightarrow> string \<Rightarrow> int \<Rightarrow> outcome" where
  "got_payment db now user payload total_amount =
     (let (order_id, db') =
            add_order db now (uid user) (username_or_empty user) payload total_amount
              ''done'' None
      in (Inr PaymentAccepted, db'))"

section \<open>Sequences of updates\<close>

datatype event =
    ProcessOption string tg_user string
  | CmdPaid message
  | CmdFulfill message
  | MyOrders message
  | GotPayment string tg_user string int

fun handle :: "config \<Rightarrow> store \<Rightarrow> event \<Rightarrow> outcome" where
  "handle cfg db (ProcessOption now user data) = process_option cfg db now user data"
| "handle cfg db (CmdPaid m) = cmd_paid db m"
| "handle cfg db (CmdFulfill m) = cmd_fulfill cfg db m"
| "handle cfg db (MyOrders m) = my_orders db m"
| "handle cfg db (GotPayment now user payload total_amount) =
     got_payment db now user payload total_amount"

fun run :: "config \<Rightarrow> store \<Rightarrow> event list \<Rightarrow> store" where
  "run cfg db [] = db"
| "run cfg db (ev # evs) = run cfg (snd (handle cfg db ev)) evs"


section \<open>Vocabulary of the properties\<close>

text \<open>The four error results of the two status operations.\<close>

fun is_error_result :: "py_error + reply \<Rightarrow> bool" where
  "is_error_result (Inr NotFound) = True"
| "is_error_result (Inr (InvalidState s)) = True"
| "is_error_result (Inr Unauthorized) = True"
| "is_error_result (Inr AlreadyDone) = True"
| "is_error_result _ = False"

text \<open>The order of the three status texts along the life of an order.\<close>

definition valid_status :: "string \<Rightarrow> bool" where
  "valid_status s \<longleftrightarrow> s = ''pending'' \<or> s = ''paid_waiting'' \<or> s = ''done''"

definition status_rank :: "string \<Rightarrow> nat" where
  "status_rank s = (if s = ''done'' then 2 else if s = ''paid_waiting'' then 1 else 0)"

text \<open>Two versions of a row that agree on every column but \<^verbatim>\<open>status\<close>.\<close>

definition other_fields_equal :: "order \<Rightarrow> order \<Rightarrow> bool" where
  "other_fields_equal r r' \<longleftrightarrow>
     id_col r' = id_col r \<and> user_id r' = user_id r \<and> username r' = username r \<and>
     option_col r' = option_col r \<and> amount r' = amount r \<and> created_at r' = created_at r \<and>
     note_col r' = note_col r"

text \<open>
  Two stores that differ at most in the \<^verbatim>\<open>status\<close> of the rows with the id \<open>k\<close>: the same
  counter, the same number of rows in the same places, every other row identical.
\<close>

definition only_status_changed :: "int \<Rightarrow> store \<Rightarrow> store \<Rightarrow> bool" where
  "only_status_changed k db db' \<longleftrightarrow>
     sqlite_sequence db' = sqlite_sequence db \<and>
     list_all2 (\<lambda>r r'. other_fields_equal r r' \<and> (id_col r \<noteq> k \<longrightarrow> r' = r))
       (orders db) (orders db')"

text \<open>The \<^verbatim>\<open>PRIMARY KEY\<close> constraint of the column \<^verbatim>\<open>id\<close>.\<close>

definition primary_key :: "store \<Rightarrow> bool" where
  "primary_key db \<longleftrightarrow> distinct (map id_col (orders db))"

section \<open>Concrete inputs\<close>

definition alice :: tg_user where
  "alice = \<lparr>uid = 5, uname = Some ''alice''\<rparr>"

definition bob :: tg_user where
  "bob = \<lparr>uid = 6, uname = None\<rparr>"

definition admin :: tg_user where
  "admin = \<lparr>uid = 7, uname = Some ''root''\<rparr>"

definition cfg7 :: config where
  "cfg7 = \<lparr>ADMIN_IDS = [7], PROVIDER_TOKEN = None\<rparr>"


text \<open>A store with one pending order of alice, and one with a direct payment of bob after it.\<close>

definition db_one :: store where
  "db_one = run cfg7 (init_db None) [ProcessOption ''2024-01-01 10:00:00'' alice ''opt_100_100'']"

definition db_two :: store where
  "db_two = run cfg7 db_one [GotPayment ''2024-01-01 11:00:00'' bob ''pay_500_6'' 400]"

definition msg :: "tg_user \<Rightarrow> string \<Rightarrow> message" where
  "msg u a = \<lparr>from_user = u, get_args = a\<rparr>"

section \<open>Facts about the text primitives\<close>

lemma dropWhile_id_hd: "s \<noteq> [] \<Longrightarrow> \<not> P (hd s) \<Longrightarrow> dropWhile P s = s"
  by (cases s) auto

lemma digit_not_c_space: "isdigit_chr c \<Longrightarrow> \<not> c_isspace c"
  by (auto simp: isdigit_chr_def c_isspace_def)

lemma int_body_digits: "s \<noteq> [] \<Longrightarrow> list_all isdigit_chr s \<Longrightarrow> int_body s"
  by (induction s rule: int_body.induct) (auto simp: isdigit_chr_def)

lemma filter_underscore_digits:
  "list_all isdigit_chr s \<Longrightarrow> filter (\<lambda>c. c \<noteq> CHR ''_'') s = s"
  by (induction s) (auto simp: isdigit_chr_def)

lemma py_int_isdigit:
  assumes "isdigit s"
  shows "py_int s = Inr (digits_value s)"
proof -
  from assms have ne: "s \<noteq> []" and all: "list_all isdigit_chr s"
    by (simp_all add: isdigit_def)
  from ne all have h: "isdigit_chr (hd s)" by (cases s) auto
  from ne all have l: "isdigit_chr (last s)" by (simp add: list_all_iff)
  have d1: "dropWhile c_isspace s = s"
    using ne h by (simp add: dropWhile_id_hd digit_not_c_space)
  have d2: "dropWhile c_isspace (rev s) = rev s"
    using ne l by (simp add: dropWhile_id_hd digit_not_c_space hd_rev)
  have sign: "hd s \<noteq> CHR ''-''" "hd s \<noteq> CHR ''+''"
    using h by (auto simp: isdigit_chr_def)
  show ?thesis
    using sign ne all
    by (simp add: py_int_def d1 d2 Let_def int_body_digits filter_underscore_digits)
qed

section \<open>Facts about the table\<close>

lemma find_map_status:
  "find (\<lambda>r. id_col r = j) (map (\<lambda>r. if id_col r = k then r\<lparr>status := s\<rparr> else r) rs)
     = map_option (\<lambda>r. if id_col r = k then r\<lparr>status := s\<rparr> else r) (find (\<lambda>r. id_col r = j) rs)"
  by (induction rs) auto

lemma select_by_id_update_status:
  "select_by_id (update_status db s k) j
     = map_option (\<lambda>r. if id_col r = k then r\<lparr>status := s\<rparr> else r) (select_by_id db j)"
  by (simp add: select_by_id_def update_status_def find_map_status)

lemma select_by_id_Some_id: "select_by_id db k = Some r \<Longrightarrow> id_col r = k"
  by (auto simp: select_by_id_def find_Some_iff)

lemma select_by_id_Some_mem: "select_by_id db k = Some r \<Longrightarrow> r \<in> set (orders db)"
  by (auto simp: select_by_id_def find_Some_iff)

lemma select_by_id_None_iff: "select_by_id db k = None \<longleftrightarrow> k \<notin> id_col ` set (orders db)"
  by (auto simp: select_by_id_def find_None_iff)

lemma foldr_max_ge_init: "(a::int) \<le> foldr max xs a"
  by (induction xs) auto

lemma foldr_max_ge_mem: "(x::int) \<in> set xs \<Longrightarrow> x \<le> foldr max xs a"
  by (induction xs) auto

lemma foldr_max_append: "foldr max (xs @ [b]) (a::int) = max (foldr max xs a) b"
  by (induction xs) auto

lemma id_le_last_rowid: "r \<in> set (orders db) \<Longrightarrow> id_col r \<le> last_rowid db"
  by (simp add: last_rowid_def foldr_max_ge_mem)

lemma map_id_update_status: "map id_col (orders (update_status db s k)) = map id_col (orders db)"
  by (simp add: update_status_def comp_def)

lemma last_rowid_update_status: "last_rowid (update_status db s k) = last_rowid db"
  by (simp add: last_rowid_def map_id_update_status) (simp add: update_status_def)

lemma foldr_max_absorb: "(\<And>x. x \<in> set xs \<Longrightarrow> x \<le> a) \<Longrightarrow> foldr max xs (a::int) = a"
  by (induction xs) (auto simp: max_def)

lemma last_rowid_add_order:
  "last_rowid (snd (add_order db now u n opt amt st nt)) = last_rowid db + 1"
proof -
  let ?m = "foldr max (map id_col (orders db)) (sqlite_sequence db)"
  have "foldr max (map id_col (orders db)) (?m + 1) = ?m + 1"
  proof (rule foldr_max_absorb)
    fix x assume "x \<in> set (map id_col (orders db))"
    then have "x \<le> ?m" by (rule foldr_max_ge_mem)
    then show "x \<le> ?m + 1" by simp
  qed
  then show ?thesis
    by (simp add: add_order_def Let_def last_rowid_def foldr_max_append)
qed

lemma fst_add_order: "fst (add_order db now u n opt amt st nt) = last_rowid db + 1"
  by (simp add: add_order_def Let_def)

lemma orders_add_order:
  "orders (snd (add_order db now u n opt amt st nt)) =
     orders db @ [\<lparr>id_col = last_rowid db + 1, user_id = u, username = n, option_col = opt,
                   amount = amt, status = st, created_at = now, note_col = nt\<rparr>]"
  by (simp add: add_order_def Let_def)

section \<open>Facts about the handlers\<close>

lemma cmd_paid_parsed:
  assumes "isdigit (strip (get_args m))"
  shows "cmd_paid db m =
     (case select_by_id db (digits_value (strip (get_args m))) of
        None \<Rightarrow> (Inr NotFound, db)
      | Some row \<Rightarrow>
          if status row \<noteq> ''pending'' then (Inr (InvalidState (status row)), db)
          else (Inr PaymentReported,
                update_status db ''paid_waiting'' (digits_value (strip (get_args m)))))"
  using assms by (simp add: cmd_paid_def Let_def py_int_isdigit)

lemma cmd_fulfill_parsed:
  assumes "uid (from_user m) \<in> set (ADMIN_IDS cfg)" and "isdigit (strip (get_args m))"
  shows "cmd_fulfill cfg db m =
     (case select_by_id db (digits_value (strip (get_args m))) of
        None \<Rightarrow> (Inr NotFound, db)
      | Some row \<Rightarrow>
          if status row = ''done'' then (Inr AlreadyDone, db)
          else (Inr (Fulfilled (digits_value (strip (get_args m)))),
                update_status db ''done'' (digits_value (strip (get_args m)))))"
  using assms by (simp add: cmd_fulfill_def Let_def py_int_isdigit)

section \<open>The status operations\<close>





lemma cmd_paid_store:
  "snd (cmd_paid db m) = db \<or>
   fst (cmd_paid db m) = Inr PaymentReported \<and> isdigit (strip (get_args m)) \<and>
   (\<exists>row. select_by_id db (digits_value (strip (get_args m))) = Some row \<and>
          status row = ''pending'') \<and>
   snd (cmd_paid db m) = update_status db ''paid_waiting'' (digits_value (strip (get_args m)))"
proof (cases "isdigit (strip (get_args m))")
  case True
  then show ?thesis
    by (simp add: cmd_paid_parsed split: option.split)
next
  case False
  then show ?thesis by (simp add: cmd_paid_def Let_def)
qed

lemma cmd_fulfill_store:
  "snd (cmd_fulfill cfg db m) = db \<or>
   fst (cmd_fulfill cfg db m) = Inr (Fulfilled (digits_value (strip (get_args m)))) \<and>
   uid (from_user m) \<in> set (ADMIN_IDS cfg) \<and> isdigit (strip (get_args m)) \<and>
   (\<exists>row. select_by_id db (digits_value (strip (get_args m))) = Some row \<and>
          status row \<noteq> ''done'') \<and>
   snd (cmd_fulfill cfg db m) = update_status db ''done'' (digits_value (strip (get_args m)))"
proof (cases "uid (from_user m) \<in> set (ADMIN_IDS cfg) \<and> isdigit (strip (get_args m))")
  case True
  then show ?thesis
    by (simp add: cmd_fulfill_parsed split: option.split)
next
  case False
  then show ?thesis by (auto simp add: cmd_fulfill_def Let_def)
qed

lemma cmd_paid_replies:
  "fst (cmd_paid db m) = Inr Usage \<and> \<not> isdigit (strip (get_args m)) \<or>
   fst (cmd_paid db m) = Inr NotFound \<or>
   (\<exists>s. fst (cmd_paid db m) = Inr (InvalidState s)) \<or>
   fst (cmd_paid db m) = Inr PaymentReported"
proof (cases "isdigit (strip (get_args m))")
  case True
  then show ?thesis
    by (simp add: cmd_paid_parsed split: option.split)
next
  case False
  then show ?thesis by (simp add: cmd_paid_def Let_def)
qed

lemma cmd_fulfill_replies:
  "fst (cmd_fulfill cfg db m) = Inr Unauthorized \<or>
   fst (cmd_fulfill cfg db m) = Inr Usage \<or>
   fst (cmd_fulfill cfg db m) = Inr NotFound \<or>
   fst (cmd_fulfill cfg db m) = Inr AlreadyDone \<or>
   fst (cmd_fulfill cfg db m) = Inr (Fulfilled (digits_value (strip (get_args m))))"
proof (cases "uid (from_user m) \<in> set (ADMIN_IDS cfg) \<and> isdigit (strip (get_args m))")
  case True
  then show ?thesis
    by (simp add: cmd_fulfill_parsed split: option.split)
next
  case False
  then show ?thesis by (auto simp add: cmd_fulfill_def Let_def)
qed

lemma only_status_changed_update:
  "only_status_changed k db (update_status db s k)"
proof -
  have "list_all2 (\<lambda>r r'. other_fields_equal r r' \<and> (id_col r \<noteq> k \<longrightarrow> r' = r)) rs
          (map (\<lambda>r. if id_col r = k then r\<lparr>status := s\<rparr> else r) rs)" for rs
    by (induction rs) (simp_all add: other_fields_equal_def)
  then show ?thesis
    by (simp add: only_status_changed_def update_status_def)
qed

text \<open>
  Claim C7. Whenever \<^verbatim>\<open>/paid\<close> or \<^verbatim>\<open>/fulfill\<close> answers with one of the four error
  results (\<open>NotFound\<close>, \<open>InvalidState\<close>, \<open>Unauthorized\<close>, \<open>AlreadyDone\<close>), the store
  it leaves is the store it was given: no row and no counter is changed.
\<close>

theorem error_result_leaves_store:
  "(is_error_result (fst (cmd_paid db m)) \<longrightarrow> snd (cmd_paid db m) = db)
   \<and> (is_error_result (fst (cmd_fulfill cfg db m)) \<longrightarrow> snd (cmd_fulfill cfg db m) = db)"
proof (intro conjI impI)
  assume "is_error_result (fst (cmd_paid db m))"
  with cmd_paid_store [of db m] show "snd (cmd_paid db m) = db" by auto
next
  assume "is_error_result (fst (cmd_fulfill cfg db m))"
  with cmd_fulfill_store [of cfg db m] show "snd (cmd_fulfill cfg db m) = db" by auto
qed

theorem error_result_leaves_store_witness:
  "is_error_result (fst (cmd_paid db_two (msg bob ''2'')))
   \<and> snd (cmd_paid db_two (msg bob ''2'')) = db_two
   \<and> is_error_result (fst (cmd_paid db_two (msg bob ''3'')))
   \<and> snd (cmd_paid db_two (msg bob ''3'')) = db_two
   \<and> is_error_result (fst (cmd_fulfill cfg7 db_two (msg bob ''1'')))
   \<and> snd (cmd_fulfill cfg7 db_two (msg bob ''1'')) = db_two
   \<and> is_error_result (fst (cmd_fulfill cfg7 db_two (msg admin ''2'')))
   \<and> snd (cmd_fulfill cfg7 db_two (msg admin ''2'')) = db_two"
proof -
  have h1: "is_error_result (fst (cmd_paid db_two (msg bob ''2'')))" by code_simp
  have h2: "is_error_result (fst (cmd_paid db_two (msg bob ''3'')))" by code_simp
  have h3: "is_error_result (fst (cmd_fulfill cfg7 db_two (msg bob ''1'')))" by code_simp
  have h4: "is_error_result (fst (cmd_fulfill cfg7 db_two (msg admin ''2'')))" by code_simp
  from h1 h2 h3 h4
    error_result_leaves_store [of db_two "msg bob ''2''" cfg7]
    error_result_leaves_store [of db_two "msg bob ''3''" cfg7]
    error_result_leaves_store [of db_two "msg bob ''1''" cfg7]
    error_result_leaves_store [of db_two "msg admin ''2''" cfg7]
  show ?thesis by blast
qed

lemma only_status_changed_refl: "only_status_changed k db db"
  by (simp add: only_status_changed_def other_fields_equal_def list_all2_same)

text \<open>
  Claim C8. A successful \<^verbatim>\<open>/paid\<close> or \<^verbatim>\<open>/fulfill\<close> changes only the status of the order
  it names: the table keeps its rows in their places and its counter, every row keeps its
  id, user id, username, option, amount, creation time and note, and every row with another
  id is unchanged as a whole.
\<close>

theorem success_changes_only_status:
  "(fst (cmd_paid db m) = Inr PaymentReported \<longrightarrow>
      only_status_changed (digits_value (strip (get_args m))) db (snd (cmd_paid db m)))
   \<and> (fst (cmd_fulfill cfg db m) = Inr (Fulfilled order_id) \<longrightarrow>
      only_status_changed order_id db (snd (cmd_fulfill cfg db m)))"
proof (intro conjI impI)
  show "only_status_changed (digits_value (strip (get_args m))) db (snd (cmd_paid db m))"
    using cmd_paid_store [of db m]
    by (auto simp: only_status_changed_refl only_status_changed_update)
next
  assume a: "fst (cmd_fulfill cfg db m) = Inr (Fulfilled order_id)"
  show "only_status_changed order_id db (snd (cmd_fulfill cfg db m))"
    using a cmd_fulfill_store [of cfg db m]
    by (auto simp: only_status_changed_refl only_status_changed_update)
qed

theorem success_changes_only_status_witness:
  "fst (cmd_paid db_two (msg bob ''1'')) = Inr PaymentReported
   \<and> only_status_changed 1 db_two (snd (cmd_paid db_two (msg bob ''1'')))
   \<and> snd (cmd_paid db_two (msg bob ''1'')) \<noteq> db_two
   \<and> fst (cmd_fulfill cfg7 db_two (msg admin ''1'')) = Inr (Fulfilled 1)
   \<and> only_status_changed 1 db_two (snd (cmd_fulfill cfg7 db_two (msg admin ''1'')))
   \<and> snd (cmd_fulfill cfg7 db_two (msg admin ''1'')) \<noteq> db_two"
proof -
  have h1: "fst (cmd_paid db_two (msg bob ''1'')) = Inr PaymentReported" by code_simp
  have h2: "fst (cmd_fulfill cfg7 db_two (msg admin ''1'')) = Inr (Fulfilled 1)" by code_simp
  have h3: "digits_value (strip (get_args (msg bob ''1''))) = 1" by code_simp
  have h4: "snd (cmd_paid db_two (msg bob ''1'')) \<noteq> db_two" by code_simp
  have h5: "snd (cmd_fulfill cfg7 db_two (msg admin ''1'')) \<noteq> db_two" by code_simp
  from success_changes_only_status [of db_two "msg bob ''1''" cfg7 1] h1 h3
  have a: "only_status_changed 1 db_two (snd (cmd_paid db_two (msg bob ''1'')))" by simp
  from success_changes_only_status [of db_two "msg admin ''1''" cfg7 1] h2
  have b: "only_status_changed 1 db_two (snd (cmd_fulfill cfg7 db_two (msg admin ''1'')))" by simp
  from h1 h2 h4 h5 a b show ?thesis by simp
qed

text \<open>
  Claim C9. \<^verbatim>\<open>/paid\<close> never looks at its sender: it never answers \<open>Unauthorized\<close>, its
  outcome is the same for every sender, so on a \<^verbatim>\<open>pending\<close> order it succeeds and moves
  the order to \<^verbatim>\<open>paid_waiting\<close> for every \<open>caller\<close>, also one who is not the order's
  user; and when it answers with an error result, that result is \<open>NotFound\<close> or
  \<open>InvalidState\<close>.
\<close>

theorem cmd_paid_no_authorization:
  "fst (cmd_paid db m) \<noteq> Inr Unauthorized
   \<and> cmd_paid db (m\<lparr>from_user := caller\<rparr>) = cmd_paid db m
   \<and> (isdigit (strip (get_args m)) \<and> order_id = digits_value (strip (get_args m)) \<and>
      select_by_id db order_id = Some row \<and> status row = ''pending'' \<longrightarrow>
        fst (cmd_paid db (m\<lparr>from_user := caller\<rparr>)) = Inr PaymentReported
      \<and> select_by_id (snd (cmd_paid db (m\<lparr>from_user := caller\<rparr>))) order_id
          = Some (row\<lparr>status := ''paid_waiting''\<rparr>))
   \<and> (is_error_result (fst (cmd_paid db m)) \<longrightarrow>
        fst (cmd_paid db m) = Inr NotFound \<or> (\<exists>s. fst (cmd_paid db m) = Inr (InvalidState s)))"
proof (intro conjI impI)
  show "fst (cmd_paid db m) \<noteq> Inr Unauthorized"
    using cmd_paid_replies [of db m] by auto
  show same: "cmd_paid db (m\<lparr>from_user := caller\<rparr>) = cmd_paid db m"
    by (simp add: cmd_paid_def)
  {
    assume a: "isdigit (strip (get_args m)) \<and> order_id = digits_value (strip (get_args m)) \<and>
      select_by_id db order_id = Some row \<and> status row = ''pending''"
    then have r: "cmd_paid db m = (Inr PaymentReported, update_status db ''paid_waiting'' order_id)"
      by (auto simp add: cmd_paid_parsed)
    from a have sel: "select_by_id db order_id = Some row" by blast
    then have i: "id_col row = order_id" by (rule select_by_id_Some_id)
    show "fst (cmd_paid db (m\<lparr>from_user := caller\<rparr>)) = Inr PaymentReported"
      by (simp add: same r)
    show "select_by_id (snd (cmd_paid db (m\<lparr>from_user := caller\<rparr>))) order_id
          = Some (row\<lparr>status := ''paid_waiting''\<rparr>)"
      using sel i by (simp add: same r select_by_id_update_status)
  }
  assume "is_error_result (fst (cmd_paid db m))"
  then show "fst (cmd_paid db m) = Inr NotFound \<or> (\<exists>s. fst (cmd_paid db m) = Inr (InvalidState s))"
    using cmd_paid_replies [of db m] by auto
qed

theorem cmd_paid_no_authorization_witness:
  "isdigit (strip (get_args (msg alice ''1'')))
   \<and> select_by_id db_two 1 \<noteq> None
   \<and> status (the (select_by_id db_two 1)) = ''pending''
   \<and> user_id (the (select_by_id db_two 1)) \<noteq> uid bob
   \<and> fst (cmd_paid db_two ((msg alice ''1'')\<lparr>from_user := bob\<rparr>)) = Inr PaymentReported
   \<and> map_option status (select_by_id (snd (cmd_paid db_two ((msg alice ''1'')\<lparr>from_user := bob\<rparr>))) 1)
       = Some ''paid_waiting''
   \<and> is_error_result (fst (cmd_paid db_two (msg bob ''2'')))
   \<and> fst (cmd_paid db_two (msg bob ''2'')) = Inr (InvalidState ''done'')"
proof -
  have h1: "isdigit (strip (get_args (msg alice ''1'')))" by code_simp
  have h2: "1 = digits_value (strip (get_args (msg alice ''1'')))" by code_simp
  have h3: "select_by_id db_two 1 \<noteq> None \<and> status (the (select_by_id db_two 1)) = ''pending''
            \<and> user_id (the (select_by_id db_two 1)) \<noteq> uid bob"
    by code_simp
  have h4: "is_error_result (fst (cmd_paid db_two (msg bob ''2'')))" by code_simp
  have h5: "fst (cmd_paid db_two (msg bob ''2'')) = Inr (InvalidState ''done'')" by code_simp
  from cmd_paid_no_authorization [of db_two "msg alice ''1''" bob 1 "the (select_by_id db_two 1)"] h1 h2 h3
  have a: "fst (cmd_paid db_two ((msg alice ''1'')\<lparr>from_user := bob\<rparr>)) = Inr PaymentReported
   \<and> map_option status (select_by_id (snd (cmd_paid db_two ((msg alice ''1'')\<lparr>from_user := bob\<rparr>))) 1)
       = Some ''paid_waiting''"
    by auto
  from h1 h3 h4 h5 a show ?thesis by simp
qed

section \<open>Facts about sequences of updates\<close>

lemma find_append_cases:
  "find P (xs @ ys) = (case find P xs of None \<Rightarrow> find P ys | Some x \<Rightarrow> Some x)"
  by (induction xs) auto

lemma select_by_id_add_order:
  "select_by_id (snd (add_order db now u n opt amt st nt)) k =
     (case select_by_id db k of
        Some r \<Rightarrow> Some r
      | None \<Rightarrow>
          if k = last_rowid db + 1
          then Some \<lparr>id_col = last_rowid db + 1, user_id = u, username = n, option_col = opt,
                      amount = amt, status = st, created_at = now, note_col = nt\<rparr>
          else None)"
  by (auto simp add: select_by_id_def orders_add_order find_append_cases split: option.split)

lemma process_option_store:
  "snd (process_option cfg db now user data) = db \<or>
   (\<exists>opt amt. snd (process_option cfg db now user data)
        = snd (add_order db now (uid user) (username_or_empty user) opt amt ''pending'' None))"
proof -
  have "\<exists>opt'. snd (add_order db now (uid user) (username_or_empty user) opt amt ''pending'' None)
          = snd (add_order db now (uid user) (username_or_empty user) opt' amt ''pending'' None)"
    for opt amt
    by blast
  then show ?thesis
    by (simp add: process_option_def Let_def case_prod_beta split: sum.split) blast
qed

lemma got_payment_store:
  "snd (got_payment db now user payload total_amount)
     = snd (add_order db now (uid user) (username_or_empty user) payload total_amount ''done'' None)"
  by (simp add: got_payment_def split: prod.split)

lemma my_orders_store: "snd (my_orders db m) = db"
  by (simp add: my_orders_def Let_def)

text \<open>What one update can do to the store.\<close>

lemma handle_store:
  "snd (handle cfg db ev) = db
   \<or> (\<exists>k row. select_by_id db k = Some row \<and> status row = ''pending'' \<and>
        snd (handle cfg db ev) = update_status db ''paid_waiting'' k)
   \<or> (ADMIN_IDS cfg \<noteq> [] \<and>
       (\<exists>k row. select_by_id db k = Some row \<and> status row \<noteq> ''done'' \<and>
          snd (handle cfg db ev) = update_status db ''done'' k))
   \<or> (\<exists>now u n opt amt.
         snd (handle cfg db ev) = snd (add_order db now u n opt amt ''pending'' None))
   \<or> (\<exists>now user payload total_amount. ev = GotPayment now user payload total_amount \<and>
         snd (handle cfg db ev)
           = snd (add_order db now (uid user) (username_or_empty user) payload total_amount
                    ''done'' None))"
proof (cases ev)
  case (ProcessOption now user data)
  from process_option_store [of cfg db now user data]
  consider "snd (process_option cfg db now user data) = db"
    | opt amt where "snd (process_option cfg db now user data)
        = snd (add_order db now (uid user) (username_or_empty user) opt amt ''pending'' None)"
    by blast
  then show ?thesis
  proof cases
    case 1
    with ProcessOption show ?thesis by simp
  next
    case 2
    with ProcessOption
    have "\<exists>now u n opt amt.
         snd (handle cfg db ev) = snd (add_order db now u n opt amt ''pending'' None)"
      by simp blast
    then show ?thesis by blast
  qed
next
  case (CmdPaid m)
  from cmd_paid_store [of db m]
  consider "snd (cmd_paid db m) = db"
    | row where "select_by_id db (digits_value (strip (get_args m))) = Some row"
        "status row = ''pending''"
        "snd (cmd_paid db m) = update_status db ''paid_waiting'' (digits_value (strip (get_args m)))"
    by blast
  then show ?thesis
  proof cases
    case 1
    with CmdPaid show ?thesis by simp
  next
    case 2
    with CmdPaid
    have "\<exists>k row. select_by_id db k = Some row \<and> status row = ''pending'' \<and>
        snd (handle cfg db ev) = update_status db ''paid_waiting'' k"
      by simp blast
    then show ?thesis by blast
  qed
next
  case (CmdFulfill m)
  from cmd_fulfill_store [of cfg db m]
  consider "snd (cmd_fulfill cfg db m) = db"
    | row where "uid (from_user m) \<in> set (ADMIN_IDS cfg)"
        "select_by_id db (digits_value (strip (get_args m))) = Some row"
        "status row \<noteq> ''done''"
        "snd (cmd_fulfill cfg db m) = update_status db ''done'' (digits_value (strip (get_args m)))"
    by blast
  then show ?thesis
  proof cases
    case 1
    with CmdFulfill show ?thesis by simp
  next
    case 2
    then have ne: "ADMIN_IDS cfg \<noteq> []" by auto
    from 2 CmdFulfill
    have "\<exists>k row. select_by_id db k = Some row \<and> status row \<noteq> ''done'' \<and>
          snd (handle cfg db ev) = update_status db ''done'' k"
      by simp blast
    with ne show ?thesis by blast
  qed
next
  case (MyOrders m)
  then show ?thesis by (simp add: my_orders_store)
next
  case (GotPayment now user payload total_amount)
  then show ?thesis by (simp add: got_payment_store)
qed

lemma status_rank_simps [simp]:
  "status_rank ''pending'' = 0" "status_rank ''paid_waiting'' = 1" "status_rank ''done'' = 2"
  by (simp_all add: status_rank_def)

lemma status_rank_le_2: "status_rank s \<le> 2"
  by (simp add: status_rank_def)

lemma other_fields_equal_refl [simp]: "other_fields_equal r r"
  by (simp add: other_fields_equal_def)

lemma other_fields_equal_status [simp]: "other_fields_equal r (r\<lparr>status := s\<rparr>)"
  by (simp add: other_fields_equal_def)

lemma other_fields_equal_trans:
  "other_fields_equal r r' \<Longrightarrow> other_fields_equal r' r'' \<Longrightarrow> other_fields_equal r r''"
  by (simp add: other_fields_equal_def)

lemma handle_moves_forward:
  assumes "select_by_id db k = Some row"
  shows "\<exists>row'. select_by_id (snd (handle cfg db ev)) k = Some row' \<and>
           other_fields_equal row row' \<and>
           (status row' = status row \<or>
            status row = ''pending'' \<and> status row' = ''paid_waiting'' \<or>
            status row \<noteq> ''done'' \<and> status row' = ''done'')"
  using handle_store [of cfg db ev]
proof (elim disjE exE conjE)
  assume "snd (handle cfg db ev) = db"
  with assms show ?thesis by simp
next
  fix j r0
  assume a: "select_by_id db j = Some r0" "status r0 = ''pending''"
    "snd (handle cfg db ev) = update_status db ''paid_waiting'' j"
  show ?thesis
  proof (cases "id_col row = j")
    case True
    with assms have "j = k" by (auto dest: select_by_id_Some_id)
    with a assms have "r0 = row" by simp
    with a assms True show ?thesis by (simp add: select_by_id_update_status)
  next
    case False
    with a assms show ?thesis by (simp add: select_by_id_update_status)
  qed
next
  fix j r0
  assume a: "select_by_id db j = Some r0" "status r0 \<noteq> ''done''"
    "snd (handle cfg db ev) = update_status db ''done'' j"
  show ?thesis
  proof (cases "id_col row = j")
    case True
    with assms have "j = k" by (auto dest: select_by_id_Some_id)
    with a assms have "r0 = row" by simp
    with a assms True show ?thesis by (simp add: select_by_id_update_status)
  next
    case False
    with a assms show ?thesis by (simp add: select_by_id_update_status)
  qed
next
  fix now u n opt amt
  assume "snd (handle cfg db ev) = snd (add_order db now u n opt amt ''pending'' None)"
  with assms show ?thesis by (simp add: select_by_id_add_order)
next
  fix now user payload total_amount
  assume "snd (handle cfg db ev)
           = snd (add_order db now (uid user) (username_or_empty user) payload total_amount
                    ''done'' None)"
  with assms show ?thesis by (simp add: select_by_id_add_order)
qed

lemma run_moves_forward:
  assumes "select_by_id db k = Some row" and "valid_status (status row)"
  shows "\<exists>row'. select_by_id (run cfg db evs) k = Some row' \<and>
           other_fields_equal row row' \<and> valid_status (status row') \<and>
           status_rank (status row) \<le> status_rank (status row') \<and>
           (status row = ''done'' \<longrightarrow> status row' = ''done'')"
  using assms
proof (induction evs arbitrary: db row)
  case Nil
  then show ?case by simp
next
  case (Cons ev evs)
  from handle_moves_forward [OF Cons.prems(1), of cfg ev]
  obtain r1 where r1: "select_by_id (snd (handle cfg db ev)) k = Some r1"
    "other_fields_equal row r1"
    "status r1 = status row \<or>
     status row = ''pending'' \<and> status r1 = ''paid_waiting'' \<or>
     status row \<noteq> ''done'' \<and> status r1 = ''done''"
    by blast
  from r1(3) Cons.prems(2) have v1: "valid_status (status r1)"
    by (auto simp: valid_status_def)
  from r1(3) have le1: "status_rank (status row) \<le> status_rank (status r1)"
    by (auto simp: status_rank_le_2)
  from r1(3) have d1: "status row = ''done'' \<longrightarrow> status r1 = ''done''"
    by auto
  from Cons.IH [OF r1(1) v1]
  obtain r2 where r2: "select_by_id (run cfg (snd (handle cfg db ev)) evs) k = Some r2"
    "other_fields_equal r1 r2" "valid_status (status r2)"
    "status_rank (status r1) \<le> status_rank (status r2)"
    "status r1 = ''done'' \<longrightarrow> status r2 = ''done''"
    by blast
  from r1(2) r2(2) have "other_fields_equal row r2" by (rule other_fields_equal_trans)
  with r2 le1 d1 show ?case by auto
qed

section \<open>The life of an order\<close>

text \<open>
  Claim C1. Take any order of the store whose status is one of the three status texts, and
  let any sequence of updates be handled (\<^verbatim>\<open>/paid\<close> and \<^verbatim>\<open>/fulfill\<close> commands with any
  sender and argument, and the other handlers as well). The order is still in the store under
  its id with every other column unchanged, its status is again one of the three texts, and
  its rank along \<^verbatim>\<open>pending\<close>, \<^verbatim>\<open>paid_waiting\<close>, \<^verbatim>\<open>done\<close> has not gone down; an order that
  was \<^verbatim>\<open>done\<close> is \<^verbatim>\<open>done\<close>.
\<close>

theorem status_only_moves_forward:
  assumes "select_by_id db k = Some row" and "valid_status (status row)"
  shows "\<exists>row'. select_by_id (run cfg db evs) k = Some row' \<and>
           other_fields_equal row row' \<and> valid_status (status row') \<and>
           status_rank (status row) \<le> status_rank (status row') \<and>
           (status row = ''done'' \<longrightarrow> status row' = ''done'')"
  using assms by (rule run_moves_forward)

theorem status_only_moves_forward_witness:
  "select_by_id db_two 1 = Some (the (select_by_id db_two 1))
   \<and> valid_status (status (the (select_by_id db_two 1)))
   \<and> status (the (select_by_id db_two 1)) = ''pending''
   \<and> map_option status
        (select_by_id
           (run cfg7 db_two
              [CmdPaid (msg alice ''1''), CmdFulfill (msg admin ''1''),
               CmdPaid (msg alice ''1''), CmdFulfill (msg admin ''1'')]) 1) = Some ''done''
   \<and> (\<exists>row'. select_by_id
           (run cfg7 db_two
              [CmdPaid (msg alice ''1''), CmdFulfill (msg admin ''1''),
               CmdPaid (msg alice ''1''), CmdFulfill (msg admin ''1'')]) 1 = Some row'
         \<and> other_fields_equal (the (select_by_id db_two 1)) row'
         \<and> valid_status (status row')
         \<and> status_rank (status (the (select_by_id db_two 1))) \<le> status_rank (status row'))"
proof -
  have h1: "select_by_id db_two 1 = Some (the (select_by_id db_two 1))" by code_simp
  have h2: "valid_status (status (the (select_by_id db_two 1)))" by code_simp
  have h3: "status (the (select_by_id db_two 1)) = ''pending''" by code_simp
  have h4: "map_option status
        (select_by_id
           (run cfg7 db_two
              [CmdPaid (msg alice ''1''), CmdFulfill (msg admin ''1''),
               CmdPaid (msg alice ''1''), CmdFulfill (msg admin ''1'')]) 1) = Some ''done''"
    by code_simp
  from status_only_moves_forward [OF h1 h2, of cfg7
      "[CmdPaid (msg alice ''1''), CmdFulfill (msg admin ''1''),
        CmdPaid (msg alice ''1''), CmdFulfill (msg admin ''1'')]"] h1 h2 h3 h4
  show ?thesis by blast
qed

lemma set_orders_update_status:
  "set (orders (update_status db s j))
     = (\<lambda>r. if id_col r = j then r\<lparr>status := s\<rparr> else r) ` set (orders db)"
  by (simp add: update_status_def)

lemma update_status_keeps_row:
  assumes sel: "select_by_id db k = Some row"
    and only: "\<forall>r\<in>set (orders db). id_col r = k \<longrightarrow> r = row"
    and other: "select_by_id db j = Some r0" "status r0 \<noteq> status row"
  shows "select_by_id (update_status db s j) k = Some row \<and>
         (\<forall>r\<in>set (orders (update_status db s j)). id_col r = k \<longrightarrow> r = row)"
proof -
  from sel have idk: "id_col row = k" by (rule select_by_id_Some_id)
  have jk: "j \<noteq> k"
  proof
    assume "j = k"
    with sel other show False by simp
  qed
  from sel idk jk have a: "select_by_id (update_status db s j) k = Some row"
    by (simp add: select_by_id_update_status)
  have b: "\<forall>r\<in>set (orders (update_status db s j)). id_col r = k \<longrightarrow> r = row"
    using only jk by (auto simp add: set_orders_update_status split: if_splits)
  from a b show ?thesis ..
qed

lemma add_order_keeps_row:
  assumes sel: "select_by_id db k = Some row"
    and only: "\<forall>r\<in>set (orders db). id_col r = k \<longrightarrow> r = row"
  shows "select_by_id (snd (add_order db now u n opt amt st nt)) k = Some row \<and>
         (\<forall>r\<in>set (orders (snd (add_order db now u n opt amt st nt))). id_col r = k \<longrightarrow> r = row)"
proof -
  from sel have "row \<in> set (orders db)" "id_col row = k"
    by (simp_all add: select_by_id_Some_mem select_by_id_Some_id)
  then have "k \<le> last_rowid db" using id_le_last_rowid by blast
  with sel only show ?thesis
    by (auto simp add: select_by_id_add_order orders_add_order)
qed

lemma handle_keeps_done_row:
  assumes sel: "select_by_id db k = Some row" and dn: "status row = ''done''"
    and only: "\<forall>r\<in>set (orders db). id_col r = k \<longrightarrow> r = row"
  shows "select_by_id (snd (handle cfg db ev)) k = Some row \<and>
         (\<forall>r\<in>set (orders (snd (handle cfg db ev))). id_col r = k \<longrightarrow> r = row)"
  using handle_store [of cfg db ev]
proof (elim disjE exE conjE)
  assume "snd (handle cfg db ev) = db"
  with sel only show ?thesis by simp
next
  fix j r0
  assume a: "select_by_id db j = Some r0" "status r0 = ''pending''"
    "snd (handle cfg db ev) = update_status db ''paid_waiting'' j"
  from a(2) dn have "status r0 \<noteq> status row" by simp
  from update_status_keeps_row [OF sel only a(1) this] a(3) show ?thesis by simp
next
  fix j r0
  assume a: "select_by_id db j = Some r0" "status r0 \<noteq> ''done''"
    "snd (handle cfg db ev) = update_status db ''done'' j"
  from a(2) dn have "status r0 \<noteq> status row" by simp
  from update_status_keeps_row [OF sel only a(1) this] a(3) show ?thesis by simp
next
  fix now u n opt amt
  assume "snd (handle cfg db ev) = snd (add_order db now u n opt amt ''pending'' None)"
  with add_order_keeps_row [OF sel only] show ?thesis by simp
next
  fix now user payload total_amount
  assume "snd (handle cfg db ev)
           = snd (add_order db now (uid user) (username_or_empty user) payload total_amount
                    ''done'' None)"
  with add_order_keeps_row [OF sel only] show ?thesis by simp
qed

lemma run_keeps_done_row:
  assumes "select_by_id db k = Some row" and "status row = ''done''"
    and "\<forall>r\<in>set (orders db). id_col r = k \<longrightarrow> r = row"
  shows "select_by_id (run cfg db evs) k = Some row \<and>
         (\<forall>r\<in>set (orders (run cfg db evs)). id_col r = k \<longrightarrow> r = row)"
  using assms
proof (induction evs arbitrary: db)
  case Nil
  then show ?case by simp
next
  case (Cons ev evs)
  from handle_keeps_done_row [OF Cons.prems, of cfg ev]
  have "select_by_id (snd (handle cfg db ev)) k = Some row"
    "\<forall>r\<in>set (orders (snd (handle cfg db ev))). id_col r = k \<longrightarrow> r = row"
    by simp_all
  from Cons.IH [OF this(1) Cons.prems(2) this(2)] show ?case by simp
qed

lemma fresh_id_not_in_table: "last_rowid db + 1 \<notin> id_col ` set (orders db)"
proof
  assume "last_rowid db + 1 \<in> id_col ` set (orders db)"
  then obtain r where "r \<in> set (orders db)" "id_col r = last_rowid db + 1" by auto
  with id_le_last_rowid [of r db] show False by simp
qed

text \<open>
  Claim C4. \<^verbatim>\<open>got_payment\<close> appends one row, under an id that no row of the store had
  before, with status \<^verbatim>\<open>done\<close>. After any sequence of further updates the order found
  under that id is still exactly this row, and every row with that id has status
  \<^verbatim>\<open>done\<close>: the order is never seen as \<^verbatim>\<open>pending\<close> or \<^verbatim>\<open>paid_waiting\<close>.
\<close>

theorem got_payment_order_is_done:
  assumes "db' = snd (got_payment db now user payload total_amount)"
    and "k = last_rowid db + 1"
    and "new_row = \<lparr>id_col = k, user_id = uid user, username = username_or_empty user,
                     option_col = payload, amount = total_amount, status = ''done'',
                     created_at = now, note_col = None\<rparr>"
  shows "k \<notin> id_col ` set (orders db)
       \<and> orders db' = orders db @ [new_row]
       \<and> select_by_id (run cfg db' evs) k = Some new_row
       \<and> (\<forall>r\<in>set (orders (run cfg db' evs)). id_col r = k \<longrightarrow> status r = ''done'')"
proof -
  from assms(2) have fresh: "k \<notin> id_col ` set (orders db)"
    by (simp add: fresh_id_not_in_table)
  from assms have ords: "orders db' = orders db @ [new_row]"
    by (simp add: got_payment_store orders_add_order)
  from fresh have none: "select_by_id db k = None"
    by (simp add: select_by_id_None_iff)
  from assms none have sel: "select_by_id db' k = Some new_row"
    by (simp add: got_payment_store select_by_id_add_order)
  from assms(3) have dn: "status new_row = ''done''" by simp
  from fresh ords have only: "\<forall>r\<in>set (orders db'). id_col r = k \<longrightarrow> r = new_row"
    by auto
  from run_keeps_done_row [OF sel dn only, of cfg evs] dn
  have "select_by_id (run cfg db' evs) k = Some new_row"
    "\<forall>r\<in>set (orders (run cfg db' evs)). id_col r = k \<longrightarrow> status r = ''done''"
    by auto
  with fresh ords show ?thesis by simp
qed

theorem got_payment_order_is_done_witness:
  "db_two = snd (got_payment db_one ''2024-01-01 11:00:00'' bob ''pay_500_6'' 400)
   \<and> 2 = last_rowid db_one + 1
   \<and> 2 \<notin> id_col ` set (orders db_one)
   \<and> map_option status
        (select_by_id
           (run cfg7 db_two
              [CmdPaid (msg bob ''2''), CmdFulfill (msg admin ''2''),
               ProcessOption ''2024-01-02 09:00:00'' bob ''opt_500_400'']) 2) = Some ''done''
   \<and> list_all (\<lambda>r. id_col r = 2 \<longrightarrow> status r = ''done'')
        (orders
           (run cfg7 db_two
              [CmdPaid (msg bob ''2''), CmdFulfill (msg admin ''2''),
               ProcessOption ''2024-01-02 09:00:00'' bob ''opt_500_400'']))"
proof -
  have h1: "db_two = snd (got_payment db_one ''2024-01-01 11:00:00'' bob ''pay_500_6'' 400)"
    by code_simp
  have h2: "2 = last_rowid db_one + 1" by code_simp
  from got_payment_order_is_done [OF h1 h2 refl, of cfg7
      "[CmdPaid (msg bob ''2''), CmdFulfill (msg admin ''2''),
        ProcessOption ''2024-01-02 09:00:00'' bob ''opt_500_400'']"] h1 h2
  show ?thesis by (simp add: list_all_iff)
qed

lemma last_rowid_handle_mono: "last_rowid db \<le> last_rowid (snd (handle cfg db ev))"
  using handle_store [of cfg db ev]
  by (auto simp add: last_rowid_update_status last_rowid_add_order)

lemma last_rowid_run_mono: "last_rowid db \<le> last_rowid (run cfg db evs)"
proof (induction evs arbitrary: db)
  case Nil
  show ?case by simp
next
  case (Cons ev evs)
  have "last_rowid db \<le> last_rowid (snd (handle cfg db ev))"
    by (rule last_rowid_handle_mono)
  also have "\<dots> \<le> last_rowid (run cfg (snd (handle cfg db ev)) evs)"
    by (rule Cons.IH)
  finally show ?case by simp
qed

lemma primary_key_empty_store: "primary_key empty_store"
  by (simp add: primary_key_def empty_store_def)

lemma primary_key_update_status: "primary_key (update_status db s k) = primary_key db"
  by (simp add: primary_key_def map_id_update_status)

lemma primary_key_add_order:
  "primary_key db \<Longrightarrow> primary_key (snd (add_order db now u n opt amt st nt))"
  using fresh_id_not_in_table [of db]
  by (simp add: primary_key_def orders_add_order)

lemma primary_key_handle: "primary_key db \<Longrightarrow> primary_key (snd (handle cfg db ev))"
  using handle_store [of cfg db ev]
  by (auto simp add: primary_key_update_status primary_key_add_order)

lemma primary_key_run: "primary_key db \<Longrightarrow> primary_key (run cfg db evs)"
  by (induction evs arbitrary: db) (simp_all add: primary_key_handle)

section \<open>The ids of new orders\<close>

text \<open>
  Claim C5. Take a call of \<^verbatim>\<open>add_order\<close> that returns the id \<open>k1\<close>, then any sequence of
  updates (among them further inserts), then a call of \<^verbatim>\<open>add_order\<close> that returns \<open>k2\<close>.
  Then \<open>k1 < k2\<close>: a later call returns a strictly greater id than every earlier one.
  Each returned id is the id of no row that was in the table at the moment of the call, and a
  table whose ids were pairwise different before still has pairwise different ids
  afterwards: no id is given to two orders.
\<close>

theorem add_order_ids_increase:
  assumes "add_order db now1 u1 n1 opt1 amt1 st1 nt1 = (k1, db')"
    and "add_order (run cfg db' evs) now2 u2 n2 opt2 amt2 st2 nt2 = (k2, db'')"
  shows "k1 < k2
       \<and> k1 \<notin> id_col ` set (orders db)
       \<and> k2 \<notin> id_col ` set (orders (run cfg db' evs))
       \<and> (primary_key db \<longrightarrow> primary_key db'')"
proof -
  from assms(1) have k1: "k1 = last_rowid db + 1"
    and d1: "db' = snd (add_order db now1 u1 n1 opt1 amt1 st1 nt1)"
    using fst_add_order [of db now1 u1 n1 opt1 amt1 st1 nt1] by simp_all
  from assms(2) have k2: "k2 = last_rowid (run cfg db' evs) + 1"
    and d2: "db'' = snd (add_order (run cfg db' evs) now2 u2 n2 opt2 amt2 st2 nt2)"
    using fst_add_order [of "run cfg db' evs" now2 u2 n2 opt2 amt2 st2 nt2] by simp_all
  from d1 have "last_rowid db' = k1" by (simp add: last_rowid_add_order k1)
  with last_rowid_run_mono [of db' cfg evs] k2 have lt: "k1 < k2" by simp
  have f1: "k1 \<notin> id_col ` set (orders db)"
    unfolding k1 by (rule fresh_id_not_in_table)
  have f2: "k2 \<notin> id_col ` set (orders (run cfg db' evs))"
    unfolding k2 by (rule fresh_id_not_in_table)
  have pk: "primary_key db \<longrightarrow> primary_key db''"
    unfolding d1 d2 by (simp add: primary_key_add_order primary_key_run)
  from lt f1 f2 pk show ?thesis by simp
qed

theorem add_order_ids_increase_witness:
  "add_order (init_db None) ''2024-01-01 10:00:00'' 5 ''alice'' ''100 UC'' 100 ''pending'' None
     = (1, db_one)
   \<and> add_order
       (run cfg7 db_one
          [GotPayment ''2024-01-01 11:00:00'' bob ''pay_500_6'' 400, CmdPaid (msg alice ''1'')])
       ''2024-01-02 09:00:00'' 6 [] ''500 UC'' 400 ''pending'' None
     = (3, snd (add_order
       (run cfg7 db_one
          [GotPayment ''2024-01-01 11:00:00'' bob ''pay_500_6'' 400, CmdPaid (msg alice ''1'')])
       ''2024-01-02 09:00:00'' 6 [] ''500 UC'' 400 ''pending'' None))
   \<and> (1::int) < 3
   \<and> primary_key (init_db None)
   \<and> primary_key (snd (add_order
       (run cfg7 db_one
          [GotPayment ''2024-01-01 11:00:00'' bob ''pay_500_6'' 400, CmdPaid (msg alice ''1'')])
       ''2024-01-02 09:00:00'' 6 [] ''500 UC'' 400 ''pending'' None))"
proof -
  have h1: "add_order (init_db None) ''2024-01-01 10:00:00'' 5 ''alice'' ''100 UC'' 100
              ''pending'' None = (1, db_one)"
    by code_simp
  have h2: "add_order
       (run cfg7 db_one
          [GotPayment ''2024-01-01 11:00:00'' bob ''pay_500_6'' 400, CmdPaid (msg alice ''1'')])
       ''2024-01-02 09:00:00'' 6 [] ''500 UC'' 400 ''pending'' None
     = (3, snd (add_order
       (run cfg7 db_one
          [GotPayment ''2024-01-01 11:00:00'' bob ''pay_500_6'' 400, CmdPaid (msg alice ''1'')])
       ''2024-01-02 09:00:00'' 6 [] ''500 UC'' 400 ''pending'' None))"
    by code_simp
  have h3: "primary_key (init_db None)" by code_simp
  from add_order_ids_increase [OF h1 h2] h1 h2 h3 show ?thesis by simp
qed

lemma fst_order_line: "fst \<circ> order_line = id_col"
  by (auto simp add: order_line_def)

lemma sort_key_strictly_increasing:
  assumes "distinct (map f xs)"
  shows "sorted_wrt (<) (map f (sort_key f xs))"
proof -
  have "mset (map f (sort_key f xs)) = mset (map f xs)" by simp
  then have "distinct (map f (sort_key f xs)) = distinct (map f xs)"
    by (rule mset_eq_imp_distinct_iff)
  with assms show ?thesis
    by (simp add: strict_sorted_iff)
qed

lemma select_by_user_decreasing:
  assumes "primary_key db"
  shows "sorted_wrt (>) (map fst (select_by_user db u))"
proof -
  let ?rs = "filter (\<lambda>r. user_id r = u) (orders db)"
  from assms have "distinct (map id_col ?rs)"
    by (simp add: primary_key_def distinct_map_filter)
  then have "sorted_wrt (<) (map id_col (sort_key id_col ?rs))"
    by (rule sort_key_strictly_increasing)
  then have "sorted_wrt (>) (rev (map id_col (sort_key id_col ?rs)))"
    by (simp add: sorted_wrt_rev)
  then show ?thesis
    by (simp add: select_by_user_def fst_order_line rev_map)
qed

lemma mset_select_by_user:
  "mset (select_by_user db u)
     = image_mset order_line (filter_mset (\<lambda>r. user_id r = u) (mset (orders db)))"
  by (simp add: select_by_user_def)

section \<open>The list of a user's orders\<close>

text \<open>
  Claim C6. In a table whose ids are pairwise different (the \<^verbatim>\<open>PRIMARY KEY\<close> constraint,
  which every sequence of updates keeps), the rows that \<^verbatim>\<open>my_orders\<close> fetches for a user id
  are exactly the lines of the orders with that user id, each once; their ids are strictly
  decreasing; and the result is empty when no order has that user id. \<^verbatim>\<open>my_orders\<close> answers
  with these rows, or with \<open>NoOrders\<close> when there are none, and leaves the store as it is.
\<close>

theorem my_orders_lists_user_orders:
  assumes "primary_key db"
  shows "mset (select_by_user db u)
           = image_mset order_line (filter_mset (\<lambda>r. user_id r = u) (mset (orders db)))
       \<and> sorted_wrt (>) (map fst (select_by_user db u))
       \<and> ((\<forall>r\<in>set (orders db). user_id r \<noteq> u) \<longrightarrow> select_by_user db u = [])
       \<and> (uid (from_user m) = u \<longrightarrow>
            my_orders db m
              = (Inr (if select_by_user db u = [] then NoOrders
                      else OrderList (select_by_user db u)), db))"
proof (intro conjI impI)
  show "mset (select_by_user db u)
           = image_mset order_line (filter_mset (\<lambda>r. user_id r = u) (mset (orders db)))"
    by (rule mset_select_by_user)
  show "sorted_wrt (>) (map fst (select_by_user db u))"
    using assms by (rule select_by_user_decreasing)
next
  assume "\<forall>r\<in>set (orders db). user_id r \<noteq> u"
  then have "filter (\<lambda>r. user_id r = u) (orders db) = []"
    by (simp add: filter_empty_conv)
  then show "select_by_user db u = []"
    by (simp add: select_by_user_def)
next
  assume "uid (from_user m) = u"
  then show "my_orders db m
              = (Inr (if select_by_user db u = [] then NoOrders
                      else OrderList (select_by_user db u)), db)"
    by (simp add: my_orders_def Let_def)
qed

theorem my_orders_lists_user_orders_witness:
  "primary_key (run cfg7 db_two [ProcessOption ''2024-01-02 09:00:00'' alice ''opt_500_400''])
   \<and> select_by_user
        (run cfg7 db_two [ProcessOption ''2024-01-02 09:00:00'' alice ''opt_500_400'']) 5
      = [(3, ''500 UC'', 400, ''pending'', ''2024-01-02 09:00:00''),
         (1, ''100 UC'', 100, ''pending'', ''2024-01-01 10:00:00'')]
   \<and> sorted_wrt (>) (map fst (select_by_user
        (run cfg7 db_two [ProcessOption ''2024-01-02 09:00:00'' alice ''opt_500_400'']) 5))
   \<and> list_all (\<lambda>r. user_id r \<noteq> 7)
        (orders (run cfg7 db_two [ProcessOption ''2024-01-02 09:00:00'' alice ''opt_500_400'']))
   \<and> select_by_user
        (run cfg7 db_two [ProcessOption ''2024-01-02 09:00:00'' alice ''opt_500_400'']) 7 = []
   \<and> fst (my_orders
        (run cfg7 db_two [ProcessOption ''2024-01-02 09:00:00'' alice ''opt_500_400''])
        (msg admin [])) = Inr NoOrders"
proof -
  let ?db = "run cfg7 db_two [ProcessOption ''2024-01-02 09:00:00'' alice ''opt_500_400'']"
  have h1: "primary_key ?db" by code_simp
  have h2: "select_by_user ?db 5
      = [(3, ''500 UC'', 400, ''pending'', ''2024-01-02 09:00:00''),
         (1, ''100 UC'', 100, ''pending'', ''2024-01-01 10:00:00'')]"
    by code_simp
  have h3: "list_all (\<lambda>r. user_id r \<noteq> 7) (orders ?db)" by code_simp
  have h4: "uid (from_user (msg admin [])) = 7" by code_simp
  from my_orders_lists_user_orders [OF h1, of 5]
  have a: "sorted_wrt (>) (map fst (select_by_user ?db 5))" by blast
  from my_orders_lists_user_orders [OF h1, of 7 "msg admin []"] h3 h4
  have b: "select_by_user ?db 7 = []"
    and c: "my_orders ?db (msg admin [])
              = (Inr (if select_by_user ?db 7 = [] then NoOrders
                      else OrderList (select_by_user ?db 7)), ?db)"
    by (simp_all add: list_all_iff)
  from c b have d: "fst (my_orders ?db (msg admin [])) = Inr NoOrders" by simp
  from h1 h2 h3 a b d show ?thesis by simp
qed





section \<open>The administrator list\<close>




end
